theory Spec2Isabelle
  imports Complex_Main "HOL-Library.Word"
begin

unbundle bit_operations_syntax

section \<open>Vector types of the device code\<close>

text \<open>
  The CUDA vector types the traverser stores. A C \<open>int\<close> or \<open>unsigned int\<close> is a
  \<open>32 word\<close>; \<open>sint\<close> reads it as the signed value. The fields are prefixed because
  \<open>x\<close>, \<open>y\<close>, \<open>z\<close>, \<open>w\<close> would otherwise become global constants. A \<open>float\<close> is
  represented by the real number it denotes; what single-precision arithmetic makes of
  such numbers is not defined here (see the kernel arithmetic below).
\<close>

record int4 =
  i4x :: "32 word"
  i4y :: "32 word"
  i4z :: "32 word"
  i4w :: "32 word"

record uint3 =
  u3x :: "32 word"
  u3y :: "32 word"
  u3z :: "32 word"

record float3 =
  f3x :: real
  f3y :: real
  f3z :: real

definition le3 :: "float3 \<Rightarrow> float3 \<Rightarrow> bool" where
  "le3 a b \<longleftrightarrow> f3x a \<le> f3x b \<and> f3y a \<le> f3y b \<and> f3z a \<le> f3z b"

definition zero_int4 :: int4 where
  "zero_int4 = \<lparr>i4x = 0, i4y = 0, i4z = 0, i4w = 0\<rparr>"

definition zero_float3 :: float3 where
  "zero_float3 = \<lparr>f3x = 0, f3y = 0, f3z = 0\<rparr>"

section \<open>CompressedNode codec\<close>

text \<open>
  Modelled from the spec: the device header \<open>kernels/LBVHTraverserKernels.cuh\<close> that packs
  and unpacks a node is not among the sources. The layout is the one of the comment above
  \<open>LBVHTraverser::compress\<close>: \<open>x: bits = 00lo.x[0-9]lo.y[0-9]lo.z[0-9]\<close>, the same for
  \<open>y\<close> with the upper bins, \<open>z\<close> the left child (if \<open>>= 0\<close>) or the complement of the
  primitive (if \<open>< 0\<close>), \<open>w\<close> the rope.
\<close>

definition pack_bins :: "uint3 \<Rightarrow> 32 word" where
  "pack_bins b = push_bit 20 (u3x b) OR push_bit 10 (u3y b) OR u3z b"

text \<open>
  Modelled from the spec: \<open>pack(lo_bin, hi_bin, child_or_prim, rope)\<close> of the absent
  kernels header; \<open>z\<close> and \<open>w\<close> are stored as given.
\<close>

definition pack :: "uint3 \<Rightarrow> uint3 \<Rightarrow> 32 word \<Rightarrow> 32 word \<Rightarrow> int4" where
  "pack lo_bin hi_bin child_or_prim rope =
     \<lparr>i4x = pack_bins lo_bin, i4y = pack_bins hi_bin, i4z = child_or_prim, i4w = rope\<rparr>"

text \<open>
  Modelled from the spec: unpacking, as the same comment gives it:
  \<open>lo.x = ((unsigned int)node.x >> 20) & 0x3ffu\<close>, \<open>lo.y = ((unsigned int)node.x >> 10) & 0x3ffu\<close>,
  \<open>lo.z = ((unsigned int)node.x) & 0x3ffu\<close>.
\<close>

definition unpack_bins :: "32 word \<Rightarrow> uint3" where
  "unpack_bins v =
     \<lparr>u3x = drop_bit 20 v AND 0x3FF, u3y = drop_bit 10 v AND 0x3FF, u3z = v AND 0x3FF\<rparr>"

text \<open>
  Modelled from the spec: the rest of \<open>unpack\<close> of the absent kernels header. If
  \<open>node.z < 0\<close> the node is a leaf and \<open>~node.z\<close> is its cached primitive; otherwise
  \<open>node.z\<close> is the left child. \<open>unpack\<close> returns
  \<open>(lo_bin, hi_bin, is_leaf, child_or_prim, rope)\<close>.
\<close>

definition is_leaf :: "int4 \<Rightarrow> bool" where
  "is_leaf node \<longleftrightarrow> sint (i4z node) < 0"

definition payload :: "int4 \<Rightarrow> 32 word" where
  "payload node = (if is_leaf node then NOT (i4z node) else i4z node)"

definition unpack :: "int4 \<Rightarrow> uint3 \<times> uint3 \<times> bool \<times> 32 word \<times> 32 word" where
  "unpack node =
     (unpack_bins (i4x node), unpack_bins (i4y node), is_leaf node, payload node, i4w node)"

section \<open>The LBVH handed to the traverser\<close>

text \<open>
  Modelled from the spec: \<open>LBVH.h\<close> is not among the sources. The traverser reads the
  counts and the root through getters and the node arrays through \<open>lbvh.data()\<close>:
  lower and upper bounds, left children (internal nodes), ropes, and the primitives of
  the leaves (leaf \<open>i\<close> is node \<open>N_internal + i\<close>).
\<close>

record LBVH =
  getN :: nat
  getNInternal :: nat
  getNNodes :: nat
  getRoot :: "32 word"
  tree_lo :: "float3 list"
  tree_hi :: "float3 list"
  tree_left :: "32 word list"
  tree_rope :: "32 word list"
  tree_primitive :: "32 word list"

definition node_index :: "32 word \<Rightarrow> nat" where
  "node_index v = nat (sint v)"

definition in_range :: "32 word \<Rightarrow> nat \<Rightarrow> bool" where
  "in_range v n \<longleftrightarrow> 0 \<le> sint v \<and> nat (sint v) < n"

section \<open>Compressed tree and the compression kernel\<close>

record LBVHCompressedData =
  croot :: "32 word"
  cdata :: "int4 list"
  clo :: float3
  chi :: float3
  cbins :: float3

text \<open>
  The single-precision arithmetic of the kernels. The kernels are not among the sources,
  and the results of their floating-point operations (which round) are not fixed by
  the spec's formulas, so that arithmetic is a parameter of the model: the bin size of
  an axis from the root's bounds \<open>lo0\<close> and \<open>hi0\<close>, the lower and the upper bin of a
  coordinate \<open>v\<close> from \<open>lo0\<close> and the bin size, and the coordinate that a bin decompresses
  to. (The spec's formulas for them are \<open>(hi0 - lo0) / 1024\<close>,
  \<open>clamp(floor((v - lo0) / bin), 0, 1023)\<close>, \<open>clamp(ceil((v - lo0) / bin), 0, 1023)\<close> and
  \<open>lo0 + bin_index * bin\<close>.)
\<close>

record kernel_arith =
  bin_size :: "real \<Rightarrow> real \<Rightarrow> real"
  lo_bin1 :: "real \<Rightarrow> real \<Rightarrow> real \<Rightarrow> 32 word"
  hi_bin1 :: "real \<Rightarrow> real \<Rightarrow> real \<Rightarrow> 32 word"
  decompress1 :: "real \<Rightarrow> real \<Rightarrow> 32 word \<Rightarrow> real"

text \<open>
  Modelled from the spec: the kernel \<open>gpu::lbvh_compress_ropes\<close> is not among the sources.
  The bin size and the bins are taken on each axis.
\<close>

definition bins_of :: "kernel_arith \<Rightarrow> float3 \<Rightarrow> float3 \<Rightarrow> float3" where
  "bins_of A lo0 hi0 =
     \<lparr>f3x = bin_size A (f3x lo0) (f3x hi0), f3y = bin_size A (f3y lo0) (f3y hi0),
      f3z = bin_size A (f3z lo0) (f3z hi0)\<rparr>"

definition lo_bin3 :: "kernel_arith \<Rightarrow> float3 \<Rightarrow> float3 \<Rightarrow> float3 \<Rightarrow> uint3" where
  "lo_bin3 A lo0 bin v =
     \<lparr>u3x = lo_bin1 A (f3x lo0) (f3x bin) (f3x v),
      u3y = lo_bin1 A (f3y lo0) (f3y bin) (f3y v),
      u3z = lo_bin1 A (f3z lo0) (f3z bin) (f3z v)\<rparr>"

definition hi_bin3 :: "kernel_arith \<Rightarrow> float3 \<Rightarrow> float3 \<Rightarrow> float3 \<Rightarrow> uint3" where
  "hi_bin3 A lo0 bin v =
     \<lparr>u3x = hi_bin1 A (f3x lo0) (f3x bin) (f3x v),
      u3y = hi_bin1 A (f3y lo0) (f3y bin) (f3y v),
      u3z = hi_bin1 A (f3z lo0) (f3z bin) (f3z v)\<rparr>"

text \<open>
  Modelled from the spec: one thread of the absent kernel. Node \<open>i\<close> is a leaf when
  \<open>i >= N_internal\<close>; a leaf stores the complement of its transformed primitive, an internal node its left child; the rope is
  copied as it is.
\<close>

definition compress_node ::
  "kernel_arith \<Rightarrow> (32 word \<Rightarrow> 32 word) \<Rightarrow> LBVH \<Rightarrow> nat \<Rightarrow> nat \<Rightarrow> int4" where
  "compress_node A transform tree N_internal i =
     (let lo0 = tree_lo tree ! node_index (getRoot tree);
          hi0 = tree_hi tree ! node_index (getRoot tree);
          bin = bins_of A lo0 hi0;
          z = (if N_internal \<le> i then NOT (transform (tree_primitive tree ! (i - N_internal)))
               else tree_left tree ! i)
      in pack (lo_bin3 A lo0 bin (tree_lo tree ! i)) (hi_bin3 A lo0 bin (tree_hi tree ! i))
           z (tree_rope tree ! i))"

text \<open>
  Modelled from the spec: the launch of the absent kernel. Nothing happens for
  \<open>N_nodes = 0\<close>; otherwise thread \<open>i < N_nodes\<close> stores its
  node at \<open>data[i]\<close>, and the root's box and the bin size are stored once. The kernel
  writes through the raw pointer of the buffer, so it cannot change the buffer's size
  (a write past the end is dropped here; the facade sizes the buffer first). The block
  size only shapes the launch.
\<close>

definition lbvh_compress_ropes ::
  "kernel_arith \<Rightarrow> LBVHCompressedData \<Rightarrow> (32 word \<Rightarrow> 32 word) \<Rightarrow> LBVH \<Rightarrow> nat \<Rightarrow> nat \<Rightarrow> nat
     \<Rightarrow> LBVHCompressedData" where
  "lbvh_compress_ropes A ctree transform tree N_internal N_nodes block_size =
     (if N_nodes = 0 then ctree
      else
        let lo0 = tree_lo tree ! node_index (getRoot tree);
            hi0 = tree_hi tree ! node_index (getRoot tree)
        in ctree\<lparr>cdata := fold (\<lambda>i d. d[i := compress_node A transform tree N_internal i])
                              [0..<N_nodes] (cdata ctree),
                 clo := lo0, chi := hi0, cbins := bins_of A lo0 hi0\<rparr>)"

section \<open>Decompression and the rope walk of one query\<close>

text \<open>
  Modelled from the spec: the kernel \<open>gpu::lbvh_traverse_ropes\<close> is not among the sources.
  The bins of a node are scaled back on each axis from the lower corner and the bin size
  stored with the compressed tree, for lower and upper bounds alike.
\<close>

definition decompress :: "kernel_arith \<Rightarrow> LBVHCompressedData \<Rightarrow> uint3 \<Rightarrow> float3" where
  "decompress A C b =
     \<lparr>f3x = decompress1 A (f3x (clo C)) (f3x (cbins C)) (u3x b),
      f3y = decompress1 A (f3y (clo C)) (f3y (cbins C)) (u3y b),
      f3z = decompress1 A (f3z (clo C)) (f3z (cbins C)) (u3z b)\<rparr>"

text \<open>
  The operations a traversal is generic in: the query's per-thread setup and overlap
  test, the translation by an image, and the output's \<open>process\<close> and \<open>finalize\<close>.
\<close>

record ('s, 'o) thread_ops =
  op_setup :: "nat \<Rightarrow> 's"
  op_overlap :: "'s \<Rightarrow> float3 \<Rightarrow> float3 \<Rightarrow> bool"
  op_translate :: "'s \<Rightarrow> nat \<Rightarrow> 's"
  op_process :: "nat \<Rightarrow> 32 word \<Rightarrow> nat \<Rightarrow> 'o \<Rightarrow> 'o"
  op_finalize :: "nat \<Rightarrow> 'o \<Rightarrow> 'o"

datatype 'o walk = Finished 'o | OutOfFuel | OutOfBounds

text \<open>
  Modelled from the spec: the inner loop of the absent traversal kernel over the active
  images at one node: \<open>hit_any\<close> becomes true at the first
  overlap, and a leaf emits one hit per overlapping image.
\<close>

definition test_images ::
  "('s, 'o) thread_ops \<Rightarrow> nat \<Rightarrow> 's \<Rightarrow> nat list \<Rightarrow> float3 \<Rightarrow> float3 \<Rightarrow> bool \<Rightarrow> 32 word
     \<Rightarrow> 'o \<Rightarrow> bool \<times> 'o" where
  "test_images P q setup_q active lo_f hi_f leaf pl out =
     fold (\<lambda>image_index (hit_any, out).
             if op_overlap P (op_translate P setup_q image_index) lo_f hi_f
             then (True, if leaf then op_process P q pl image_index out else out)
             else (hit_any, out))
          active (False, out)"

text \<open>
  Modelled from the spec: the \<open>while node != Sentinel\<close> loop of the absent traversal
  kernel. The value of \<open>LBVHSentinel\<close> is declared in a header
  that is not among the sources, so it is a parameter. The fuel counts the iterations:
  \<open>OutOfFuel\<close> says the loop was still running after that many. A node index outside
  the buffer is reported as \<open>OutOfBounds\<close>.
\<close>

fun rope_walk ::
  "kernel_arith \<Rightarrow> ('s, 'o) thread_ops \<Rightarrow> 32 word \<Rightarrow> LBVHCompressedData \<Rightarrow> nat \<Rightarrow> 's \<Rightarrow> nat list
     \<Rightarrow> nat \<Rightarrow> 32 word \<Rightarrow> 'o \<Rightarrow> 'o walk" where
  "rope_walk A P sentinel C q setup_q active 0 node out =
     (if node = sentinel then Finished out else OutOfFuel)"
| "rope_walk A P sentinel C q setup_q active (Suc fuel) node out =
     (if node = sentinel then Finished out
      else if \<not> in_range node (length (cdata C)) then OutOfBounds
      else
        case unpack (cdata C ! node_index node) of
          (lo_bin, hi_bin, leaf, pl, rope) \<Rightarrow>
            (case test_images P q setup_q active (decompress A C lo_bin)
                    (decompress A C hi_bin) leaf pl out of
               (hit_any, out') \<Rightarrow>
                 if hit_any \<and> \<not> leaf
                 then rope_walk A P sentinel C q setup_q active fuel pl out'
                 else rope_walk A P sentinel C q setup_q active fuel rope out'))"

text \<open>
  Modelled from the spec: the thread of query \<open>q\<close> of the absent traversal kernel. The
  active images are those whose translated query overlaps the root box stored with the
  compressed tree; then the walk from the root, then \<open>finalize\<close>.
\<close>

definition traverse_thread ::
  "kernel_arith \<Rightarrow> ('s, 'o) thread_ops \<Rightarrow> 32 word \<Rightarrow> LBVHCompressedData \<Rightarrow> nat \<Rightarrow> nat \<Rightarrow> nat \<Rightarrow> 'o
     \<Rightarrow> 'o walk" where
  "traverse_thread A P sentinel C n_images q fuel out =
     (let setup_q = op_setup P q;
          active = filter (\<lambda>k. op_overlap P (op_translate P setup_q k) (clo C) (chi C))
                     [0..<n_images]
      in case rope_walk A P sentinel C q setup_q active fuel (croot C) out of
           Finished out' \<Rightarrow> Finished (op_finalize P q out')
         | OutOfFuel \<Rightarrow> OutOfFuel
         | OutOfBounds \<Rightarrow> OutOfBounds)"

text \<open>
  The order the ropes follow: \<open>rank\<close> numbers the nodes in the order a full traversal
  meets them. In a tree laid out for rope traversal the left child of an internal
  node and the rope of every node come later in that order (or the rope is the
  sentinel), so no node is met twice and every rope chain ends at the sentinel.
\<close>

definition forward :: "(nat \<Rightarrow> nat) \<Rightarrow> nat \<Rightarrow> nat \<Rightarrow> 32 word \<Rightarrow> bool" where
  "forward rank n i v \<longleftrightarrow> in_range v n \<and> rank i < rank (node_index v)"

definition rope_ordered ::
  "32 word \<Rightarrow> (nat \<Rightarrow> nat) \<Rightarrow> LBVHCompressedData \<Rightarrow> nat \<Rightarrow> bool" where
  "rope_ordered sentinel rank C n \<longleftrightarrow>
     length (cdata C) = n \<and> in_range (croot C) n \<and>
     (\<forall>i<n. rank i < n \<and>
        (\<not> is_leaf (cdata C ! i) \<longrightarrow> forward rank n i (i4z (cdata C ! i))) \<and>
        (i4w (cdata C ! i) = sentinel \<or> forward rank n i (i4w (cdata C ! i))))"

section \<open>Autotuner\<close>

text \<open>
  Modelled from the spec: \<open>Autotuner.h\<close> is not among the sources. The parameter set of
  \<open>Autotuner(start, end, step, nsamples, period)\<close> is \<open>{start, start+step, \<dots>, end}\<close>;
  \<open>setEnabled\<close> and \<open>setPeriod\<close> store their argument. The spec does not give the
  initial flag and call count; no result below depends on them.
\<close>

record Autotuner =
  parameters :: "nat list"
  nsamples :: nat
  period :: nat
  enabled :: bool
  calls_since_last_sweep :: nat

definition new_Autotuner :: "nat \<Rightarrow> nat \<Rightarrow> nat \<Rightarrow> nat \<Rightarrow> nat \<Rightarrow> Autotuner" where
  "new_Autotuner start end' step samples per =
     \<lparr>parameters = map (\<lambda>k. start + k * step) [0..<(end' - start) div step + 1],
      nsamples = samples, period = per, enabled = True, calls_since_last_sweep = 0\<rparr>"

definition setEnabled :: "bool \<Rightarrow> Autotuner \<Rightarrow> Autotuner" where
  "setEnabled enable t = t\<lparr>enabled := enable\<rparr>"

definition setPeriod :: "nat \<Rightarrow> Autotuner \<Rightarrow> Autotuner" where
  "setPeriod per t = t\<lparr>period := per\<rparr>"

section \<open>The traverser\<close>

text \<open>
  What \<open>LBVHTraverser\<close> is generic in or calls outside the sources: the sizes of the
  query and image operations, the traversal launcher \<open>gpu::lbvh_traverse_ropes\<close> as the
  effect of the launch on the output, the autotuner's \<open>begin\<close>, \<open>end\<close> and
  \<open>getParam\<close> (timing is outside the model), and the arithmetic of the compression
  kernel.
\<close>

record ('q, 'i, 'o) externals =
  query_size :: "'q \<Rightarrow> nat"
  images_size :: "'i \<Rightarrow> nat"
  lbvh_traverse_ropes :: "'o \<Rightarrow> LBVHCompressedData \<Rightarrow> 'q \<Rightarrow> 'i \<Rightarrow> nat \<Rightarrow> 'o"
  tune_begin :: "Autotuner \<Rightarrow> Autotuner"
  tune_end :: "Autotuner \<Rightarrow> Autotuner"
  tune_getParam :: "Autotuner \<Rightarrow> nat"
  arith :: kernel_arith

text \<open>The CUDA stream is the list of launcher calls issued on it, oldest first.\<close>

datatype launch = CompressLaunch | TraverseLaunch

datatype error = runtime_error string

text \<open>
  The members of the class. \<open>m_lbvh_lo\<close>, \<open>m_lbvh_hi\<close> and \<open>m_bins\<close> are device vectors of
  one element each and are modelled by that element.
\<close>

record LBVHTraverser =
  m_root :: "32 word"
  m_data :: "int4 list"
  m_lbvh_lo :: float3
  m_lbvh_hi :: float3
  m_bins :: float3
  m_tune_traverse :: Autotuner
  m_tune_compress :: Autotuner
  m_replay :: bool

text \<open>The constructor. \<open>m_root\<close> has no initialiser: its first value is a parameter.\<close>

definition new_LBVHTraverser :: "32 word \<Rightarrow> LBVHTraverser" where
  "new_LBVHTraverser root0 =
     \<lparr>m_root = root0, m_data = [], m_lbvh_lo = zero_float3, m_lbvh_hi = zero_float3,
      m_bins = zero_float3,
      m_tune_traverse = new_Autotuner 32 1024 32 5 100000,
      m_tune_compress = new_Autotuner 32 1024 32 5 100000,
      m_replay = False\<rparr>"

definition setAutotunerParams :: "bool \<Rightarrow> nat \<Rightarrow> LBVHTraverser \<Rightarrow> LBVHTraverser" where
  "setAutotunerParams enable per self =
     self\<lparr>m_tune_traverse := setPeriod per (setEnabled enable (m_tune_traverse self)),
          m_tune_compress := setPeriod per (setEnabled enable (m_tune_compress self))\<rparr>"

definition data :: "LBVHTraverser \<Rightarrow> LBVHCompressedData" where
  "data self =
     \<lparr>croot = m_root self, cdata = m_data self, clo = m_lbvh_lo self, chi = m_lbvh_hi self,
      cbins = m_bins self\<rparr>"

text \<open>
  \<open>compress\<close>: the buffer is replaced by a fresh one of \<open>num_data\<close> elements only when
  \<open>num_data > m_data.size()\<close>; then the root is set and the kernel, bracketed by the
  compression autotuner, writes through the handles that \<open>data()\<close> returns.
\<close>

definition compress ::
  "('q, 'i, 'o) externals \<Rightarrow> LBVH \<Rightarrow> (32 word \<Rightarrow> 32 word) \<Rightarrow> launch list \<Rightarrow> LBVHTraverser
     \<Rightarrow> launch list \<times> LBVHTraverser" where
  "compress E lbvh transform stream self =
     (let num_data = getNNodes lbvh;
          self1 = (if num_data > length (m_data self)
                   then self\<lparr>m_data := replicate num_data zero_int4\<rparr> else self);
          self2 = self1\<lparr>m_root := getRoot lbvh\<rparr>;
          ctree = data self2;
          self3 = self2\<lparr>m_tune_compress := tune_begin E (m_tune_compress self2)\<rparr>;
          ctree' = lbvh_compress_ropes (arith E) ctree transform lbvh (getNInternal lbvh)
                     (getNNodes lbvh) (tune_getParam E (m_tune_compress self3));
          self4 = self3\<lparr>m_data := cdata ctree', m_lbvh_lo := clo ctree',
                        m_lbvh_hi := chi ctree', m_bins := cbins ctree'\<rparr>;
          self5 = self4\<lparr>m_tune_compress := tune_end E (m_tune_compress self4)\<rparr>
      in (stream @ [CompressLaunch], self5))"

text \<open>
  \<open>LBVHTraverser::setup\<close> (the name \<open>setup\<close> is a command of Isabelle, hence the longer
  name here).
\<close>

definition setup_traverser ::
  "('q, 'i, 'o) externals \<Rightarrow> (32 word \<Rightarrow> 32 word) \<Rightarrow> LBVH \<Rightarrow> launch list \<Rightarrow> LBVHTraverser
     \<Rightarrow> launch list \<times> LBVHTraverser" where
  "setup_traverser E transform lbvh stream self =
     (if getN lbvh = 0 then (stream, self)
      else case compress E lbvh transform stream self of
             (stream', self') \<Rightarrow> (stream', self'\<lparr>m_replay := True\<rparr>))"

definition reset :: "LBVHTraverser \<Rightarrow> LBVHTraverser" where
  "reset self = self\<lparr>m_replay := False\<rparr>"

text \<open>The \<open>std::runtime_error\<close> that \<open>traverse\<close> throws, with its message as written.\<close>

definition too_many_images :: error where
  "too_many_images =
     runtime_error ''A maximum of 32 image vectores are supported by LBVH traversers.''"

text \<open>
  \<open>traverse\<close> returns what it threw (if anything) together with the output, the stream
  and the traverser as the call leaves them, so that a throw shows the state it leaves.
\<close>

definition traverse ::
  "('q, 'i, 'o) externals \<Rightarrow> 'o \<Rightarrow> 'q \<Rightarrow> (32 word \<Rightarrow> 32 word) \<Rightarrow> LBVH \<Rightarrow> 'i \<Rightarrow> launch list
     \<Rightarrow> LBVHTraverser \<Rightarrow> error option \<times> 'o \<times> launch list \<times> LBVHTraverser" where
  "traverse E out query transform lbvh images stream self =
     (if getN lbvh = 0 then (None, out, stream, self)
      else if query_size E query = 0 \<or> images_size E images = 0 then (None, out, stream, self)
      else if images_size E images > 32 then (Some too_many_images, out, stream, self)
      else
        case (if \<not> m_replay self then setup_traverser E transform lbvh stream self
              else (stream, self)) of
          (stream1, self1) \<Rightarrow>
            let clbvh = data self1;
                self2 = self1\<lparr>m_tune_traverse := tune_begin E (m_tune_traverse self1)\<rparr>;
                out' = lbvh_traverse_ropes E out clbvh query images
                         (tune_getParam E (m_tune_traverse self2));
                self3 = self2\<lparr>m_tune_traverse := tune_end E (m_tune_traverse self2)\<rparr>
            in (None, out', stream1 @ [TraverseLaunch], self3))"

subsection \<open>Sequences of calls on one traverser\<close>

datatype ('q, 'i) call =
  Setup "32 word \<Rightarrow> 32 word" LBVH
| Reset
| Traverse 'q "32 word \<Rightarrow> 32 word" LBVH 'i

fun do_call ::
  "('q, 'i, 'o) externals \<Rightarrow> ('q, 'i) call \<Rightarrow> 'o \<times> launch list \<times> LBVHTraverser
     \<Rightarrow> error option \<times> 'o \<times> launch list \<times> LBVHTraverser" where
  "do_call E (Setup transform lbvh) (out, stream, self) =
     (case setup_traverser E transform lbvh stream self of
        (stream', self') \<Rightarrow> (None, out, stream', self'))"
| "do_call E Reset (out, stream, self) = (None, out, stream, reset self)"
| "do_call E (Traverse query transform lbvh images) (out, stream, self) =
     traverse E out query transform lbvh images stream self"

text \<open>
  A caller that goes on after a throw: the result lists what each call threw and gives
  the state after the last call.
\<close>

fun run ::
  "('q, 'i, 'o) externals \<Rightarrow> ('q, 'i) call list \<Rightarrow> 'o \<times> launch list \<times> LBVHTraverser
     \<Rightarrow> error option list \<times> 'o \<times> launch list \<times> LBVHTraverser" where
  "run E [] h = ([], h)"
| "run E (c # cs) h =
     (case do_call E c h of (e, h') \<Rightarrow> (case run E cs h' of (es, h'') \<Rightarrow> (e # es, h'')))"

text \<open>What a caller observes of a run: what each call threw, and the output.\<close>

definition outputs ::
  "error option list \<times> 'o \<times> launch list \<times> LBVHTraverser \<Rightarrow> error option list \<times> 'o" where
  "outputs r = (fst r, fst (snd r))"

text \<open>The calls \<open>traverse(out, query, transform, lbvh, images)\<close> for a list of queries.\<close>

definition traverse_calls ::
  "(32 word \<Rightarrow> 32 word) \<Rightarrow> LBVH \<Rightarrow> ('q \<times> 'i) list \<Rightarrow> ('q, 'i) call list" where
  "traverse_calls transform lbvh qs =
     map (\<lambda>(query, images). Traverse query transform lbvh images) qs"

section \<open>Predicates of the statements and example inputs\<close>

definition example_sentinel :: "32 word" where
  "example_sentinel = 0x80000000"

definition cube :: "real \<Rightarrow> float3" where
  "cube a = \<lparr>f3x = a, f3y = a, f3z = a\<rparr>"

definition single_leaf :: LBVH where
  "single_leaf =
     \<lparr>getN = 1, getNInternal = 0, getNNodes = 1, getRoot = 0,
      tree_lo = [cube 0], tree_hi = [cube 1024], tree_left = [0],
      tree_rope = [example_sentinel], tree_primitive = [0]\<rparr>"

definition two_leaves :: LBVH where
  "two_leaves =
     \<lparr>getN = 2, getNInternal = 1, getNNodes = 3, getRoot = 0,
      tree_lo = [cube 0, cube 0, cube 512], tree_hi = [cube 1024, cube 512, cube 1024],
      tree_left = [1, 0, 0], tree_rope = [example_sentinel, 2, example_sentinel],
      tree_primitive = [0, 1]\<rparr>"

definition empty_lbvh :: LBVH where
  "empty_lbvh =
     \<lparr>getN = 0, getNInternal = 0, getNNodes = 0, getRoot = example_sentinel,
      tree_lo = [], tree_hi = [], tree_left = [], tree_rope = [], tree_primitive = []\<rparr>"

text \<open>
  Arithmetic for the examples: the spec's formulas taken exactly. The examples use boxes
  whose corners lie on the grid, where these operations have nothing to round.
\<close>

definition exact_arith :: kernel_arith where
  "exact_arith =
     \<lparr>bin_size = (\<lambda>lo0 hi0. (hi0 - lo0) / 1024),
      lo_bin1 = (\<lambda>lo0 bin v.
        if bin = 0 then 0 else word_of_int (max 0 (min 1023 \<lfloor>(v - lo0) / bin\<rfloor>))),
      hi_bin1 = (\<lambda>lo0 bin v.
        if bin = 0 then 0 else word_of_int (max 0 (min 1023 \<lceil>(v - lo0) / bin\<rceil>))),
      decompress1 = (\<lambda>lo0 bin b. lo0 + real (unat b) * bin)\<rparr>"

text \<open>
  Externals for the examples: a query and an image list are given by their sizes, and
  the output lists, per traversal launch, the size of the buffer the launch reads.
\<close>

definition counting_externals :: "(nat, nat, nat list) externals" where
  "counting_externals =
     \<lparr>query_size = (\<lambda>query. query),
      images_size = (\<lambda>images. images),
      lbvh_traverse_ropes = (\<lambda>out clbvh query images block_size. out @ [length (cdata clbvh)]),
      tune_begin = (\<lambda>t. t),
      tune_end = (\<lambda>t. t\<lparr>calls_since_last_sweep := Suc (calls_since_last_sweep t)\<rparr>),
      tune_getParam = (\<lambda>t. case parameters t of [] \<Rightarrow> 0 | p # _ \<Rightarrow> p),
      arith = exact_arith\<rparr>"

text \<open>
  Externals whose output shows what the traversal launch reads: the \<open>z\<close> word of every
  node of the compressed buffer. \<open>next_primitive\<close> is a transform other than the
  identity.
\<close>

definition dumping_externals :: "(nat, nat, 32 word list) externals" where
  "dumping_externals =
     \<lparr>query_size = (\<lambda>query. query),
      images_size = (\<lambda>images. images),
      lbvh_traverse_ropes = (\<lambda>out clbvh query images block_size. out @ map i4z (cdata clbvh)),
      tune_begin = (\<lambda>t. t),
      tune_end = (\<lambda>t. t),
      tune_getParam = (\<lambda>t. 32),
      arith = exact_arith\<rparr>"

definition next_primitive :: "32 word \<Rightarrow> 32 word" where
  "next_primitive p = p + 1"

definition empty_ctree :: "nat \<Rightarrow> LBVHCompressedData" where
  "empty_ctree n =
     \<lparr>croot = 0, cdata = replicate n zero_int4, clo = zero_float3, chi = zero_float3,
      cbins = zero_float3\<rparr>"

definition point_ops :: "float3 list \<Rightarrow> (float3, (nat \<times> 32 word \<times> nat) list) thread_ops" where
  "point_ops pts =
     \<lparr>op_setup = (\<lambda>q. pts ! q),
      op_overlap = (\<lambda>p lo hi. le3 lo p \<and> le3 p hi),
      op_translate = (\<lambda>p image_index. p),
      op_process = (\<lambda>q prim image_index out. out @ [(q, prim, image_index)]),
      op_finalize = (\<lambda>q out. out)\<rparr>"

definition bins_ok :: "uint3 \<Rightarrow> bool" where
  "bins_ok b \<longleftrightarrow> u3x b \<le> 1023 \<and> u3y b \<le> 1023 \<and> u3z b \<le> 1023"

definition bit_layout :: "32 word \<Rightarrow> uint3 \<Rightarrow> bool" where
  "bit_layout v b \<longleftrightarrow>
     (\<forall>k<10. bit v (20 + k) = bit (u3x b) k \<and> bit v (10 + k) = bit (u3y b) k \<and>
        bit v k = bit (u3z b) k) \<and>
     \<not> bit v 30 \<and> \<not> bit v 31"

section \<open>The node codec\<close>

lemma mask_0x3FF: "(0x3FF :: 32 word) = mask 10"
  by (simp add: mask_eq_exp_minus_1)

lemma le_1023_bit:
  assumes "(b :: 32 word) \<le> 1023" and "bit b k"
  shows "k < 10"
proof -
  from assms(1) have "b < 2 ^ 10"
    by (simp add: word_less_nat_alt word_le_nat_alt)
  then have "b AND mask 10 = b"
    by (rule less_mask_eq)
  then have "bit (b AND mask 10) k"
    using assms(2) by simp
  then show ?thesis
    by (simp add: bit_simps)
qed

lemma unpack_pack_bins:
  assumes "bins_ok b"
  shows "unpack_bins (pack_bins b) = b"
proof -
  have bx: "\<And>k. bit (u3x b) k \<Longrightarrow> k < 10" and by': "\<And>k. bit (u3y b) k \<Longrightarrow> k < 10"
    and bz: "\<And>k. bit (u3z b) k \<Longrightarrow> k < 10"
    using assms by (auto simp: bins_ok_def dest: le_1023_bit)
  have x: "drop_bit 20 (pack_bins b) AND mask 10 = u3x b"
    by (rule bit_word_eqI) (auto simp add: pack_bins_def bit_simps dest: bx by' bz)
  have y: "drop_bit 10 (pack_bins b) AND mask 10 = u3y b"
    by (rule bit_word_eqI) (auto simp add: pack_bins_def bit_simps dest: bx by' bz)
  have z: "pack_bins b AND mask 10 = u3z b"
    by (rule bit_word_eqI) (auto simp add: pack_bins_def bit_simps dest: bx by' bz)
  show ?thesis
    unfolding unpack_bins_def mask_0x3FF x y z by simp
qed

lemma pack_bins_layout:
  assumes "bins_ok b"
  shows "bit_layout (pack_bins b) b"
proof -
  have bx: "\<And>k. bit (u3x b) k \<Longrightarrow> k < 10" and by': "\<And>k. bit (u3y b) k \<Longrightarrow> k < 10"
    and bz: "\<And>k. bit (u3z b) k \<Longrightarrow> k < 10"
    using assms by (auto simp: bins_ok_def dest: le_1023_bit)
  show ?thesis
    unfolding bit_layout_def pack_bins_def
    by (auto simp add: bit_simps dest: bx by' bz)
qed

lemma sint_neg_bit: "sint (z :: 32 word) < 0 \<longleftrightarrow> bit z 31"
  using bit_last_iff [of z] by simp

lemma sint_NOT_neg: "sint (NOT z) < 0 \<longleftrightarrow> \<not> sint (z :: 32 word) < 0"
  by (simp add: sint_neg_bit bit_simps)

text \<open>
  Claim C6. For lower and upper bins in \<open>{0..1023}\<close> on every axis, any child-or-primitive
  value \<open>c\<close> and any rope: the packed \<open>x\<close> word holds the lower x-bin in bits 29..20, the
  y-bin in bits 19..10, the z-bin in bits 9..0 and zeros in bits 31..30, and the \<open>y\<close>
  word the upper bins likewise; unpacking by shift and mask with \<open>0x3FF\<close> gives the bins
  back; the node is a leaf iff \<open>z < 0\<close>, its cached primitive then being \<open>~z\<close>, and
  \<open>z >= 0\<close> is handed back as the left child; the rope comes back as it went in. A leaf
  packed from the primitive \<open>p >= 0\<close> (stored as \<open>~p\<close>) unpacks to \<open>p\<close>.
\<close>

theorem pack_unpack_round_trip:
  assumes "bins_ok lo_bin" and "bins_ok hi_bin"
  shows "bit_layout (i4x (pack lo_bin hi_bin c rope)) lo_bin \<and>
         bit_layout (i4y (pack lo_bin hi_bin c rope)) hi_bin \<and>
         unpack (pack lo_bin hi_bin c rope) =
           (lo_bin, hi_bin, sint c < 0, (if sint c < 0 then NOT c else c), rope) \<and>
         (0 \<le> sint p \<longrightarrow> unpack (pack lo_bin hi_bin (NOT p) rope) = (lo_bin, hi_bin, True, p, rope))"
  using assms
  by (simp add: pack_def unpack_def is_leaf_def payload_def unpack_pack_bins pack_bins_layout
      sint_NOT_neg)

theorem pack_unpack_round_trip_witness:
  "bins_ok \<lparr>u3x = 3, u3y = 1023, u3z = 17\<rparr> \<and> bins_ok \<lparr>u3x = 5, u3y = 0, u3z = 1023\<rparr> \<and>
   i4x (pack \<lparr>u3x = 3, u3y = 1023, u3z = 17\<rparr> \<lparr>u3x = 5, u3y = 0, u3z = 1023\<rparr> (NOT 7) 2) = 0x3FFC11 \<and>
   unpack (pack \<lparr>u3x = 3, u3y = 1023, u3z = 17\<rparr> \<lparr>u3x = 5, u3y = 0, u3z = 1023\<rparr> (NOT 7) 2) =
     (\<lparr>u3x = 3, u3y = 1023, u3z = 17\<rparr>, \<lparr>u3x = 5, u3y = 0, u3z = 1023\<rparr>, True, 7, 2)"
  using pack_unpack_round_trip [of "\<lparr>u3x = 3, u3y = 1023, u3z = 17\<rparr>"
      "\<lparr>u3x = 5, u3y = 0, u3z = 1023\<rparr>" 7 2 7]
  by (simp add: bins_ok_def pack_def pack_bins_def)


section \<open>Facts about the compression launch\<close>

lemma length_fold_update: "length (fold (\<lambda>i d. d[i := f i]) is d) = length d"
  by (induction "is" arbitrary: d) simp_all

lemma two_leaves_compressed:
  "lbvh_compress_ropes exact_arith (empty_ctree 3) id two_leaves 1 3 32 =
     \<lparr>croot = 0,
      cdata = [\<lparr>i4x = 0, i4y = 0x3FFFFFFF, i4z = 1, i4w = example_sentinel\<rparr>,
               \<lparr>i4x = 0, i4y = 0x20080200, i4z = NOT 0, i4w = 2\<rparr>,
               \<lparr>i4x = 0x20080200, i4y = 0x3FFFFFFF, i4z = NOT 1, i4w = example_sentinel\<rparr>],
      clo = cube 0, chi = cube 1024, cbins = cube 1\<rparr>"
  by code_simp

section \<open>Termination of the rope walk\<close>

lemma rope_walk_finishes:
  assumes ord: "rope_ordered sentinel rank C n"
  shows "node = sentinel \<or> (in_range node n \<and> n - rank (node_index node) \<le> fuel) \<Longrightarrow>
         \<exists>out'. rope_walk A P sentinel C q tok act fuel node out = Finished out'"
proof (induction fuel arbitrary: node out)
  case 0
  show ?case
  proof (cases "node = sentinel")
    case True
    then show ?thesis by simp
  next
    case False
    with 0 have r: "in_range node n" and le: "n - rank (node_index node) \<le> 0"
      by simp_all
    from r have "node_index node < n"
      by (simp add: in_range_def node_index_def)
    with ord have "rank (node_index node) < n"
      by (simp add: rope_ordered_def)
    with le show ?thesis by simp
  qed
next
  case (Suc fuel)
  show ?case
  proof (cases "node = sentinel")
    case True
    then show ?thesis by simp
  next
    case False
    with Suc.prems have r: "in_range node n" and le: "n - rank (node_index node) \<le> Suc fuel"
      by simp_all
    define i where "i = node_index node"
    define nd where "nd = cdata C ! i"
    from r have i: "i < n"
      by (simp add: in_range_def node_index_def i_def)
    have len: "length (cdata C) = n"
      using ord by (simp add: rope_ordered_def)
    from ord i have rk: "rank i < n"
      and child: "\<not> is_leaf nd \<Longrightarrow> forward rank n i (i4z nd)"
      and rope: "i4w nd = sentinel \<or> forward rank n i (i4w nd)"
      by (simp_all add: rope_ordered_def nd_def)
    have fw: "forward rank n i v \<Longrightarrow> in_range v n \<and> n - rank (node_index v) \<le> fuel" for v
      using le rk by (auto simp: forward_def i_def)
    obtain hit out1 where t: "test_images P q tok act (decompress A C (unpack_bins (i4x nd)))
        (decompress A C (unpack_bins (i4y nd))) (is_leaf nd) (payload nd) out = (hit, out1)"
      by (cases "test_images P q tok act (decompress A C (unpack_bins (i4x nd)))
        (decompress A C (unpack_bins (i4y nd))) (is_leaf nd) (payload nd) out") 
    show ?thesis
    proof (cases "hit \<and> \<not> is_leaf nd")
      case True
      then have "payload nd = i4z nd"
        by (simp add: payload_def)
      with True child fw have "in_range (payload nd) n \<and> n - rank (node_index (payload nd)) \<le> fuel"
        by simp
      then obtain out' where "rope_walk A P sentinel C q tok act fuel (payload nd) out1 = Finished out'"
        using Suc.IH [of "payload nd" out1] by blast
      then show ?thesis
        using False r True t by (simp add: len unpack_def nd_def i_def)
    next
      case F: False
      from rope fw have "i4w nd = sentinel \<or>
          (in_range (i4w nd) n \<and> n - rank (node_index (i4w nd)) \<le> fuel)"
        by blast
      then obtain out' where "rope_walk A P sentinel C q tok act fuel (i4w nd) out1 = Finished out'"
        using Suc.IH [of "i4w nd" out1] by blast
      then show ?thesis
        using False r F t by (auto simp add: len unpack_def nd_def i_def)
    qed
  qed
qed

text \<open>
  Claim C2. In a compressed tree of \<open>2 * N_primitives - 1\<close> nodes whose left children and
  ropes follow the rope order (so every rope chain ends at the sentinel and no node is
  met again), the thread of every query, whatever its operations, its images and its
  output so far, leaves the loop at the sentinel within \<open>2 * N_primitives - 1\<close>
  iterations, without ever indexing outside the buffer.
\<close>

theorem rope_traversal_terminates:
  assumes "rope_ordered sentinel rank C (2 * N_primitives - 1)"
  shows "\<exists>out'. traverse_thread A P sentinel C n_images q (2 * N_primitives - 1) out = Finished out'"
proof -
  have "in_range (croot C) (2 * N_primitives - 1)"
    using assms by (simp add: rope_ordered_def)
  then have "croot C = sentinel \<or> (in_range (croot C) (2 * N_primitives - 1) \<and>
      (2 * N_primitives - 1) - rank (node_index (croot C)) \<le> 2 * N_primitives - 1)"
    by arith
  from rope_walk_finishes [OF assms this]
  have "\<exists>out1. rope_walk A P sentinel C q (op_setup P q)
      (filter (\<lambda>k. op_overlap P (op_translate P (op_setup P q) k) (clo C) (chi C))
         [0..<n_images])
      (2 * N_primitives - 1) (croot C) out = Finished out1" .
  then obtain out1 where "rope_walk A P sentinel C q (op_setup P q)
      (filter (\<lambda>k. op_overlap P (op_translate P (op_setup P q) k) (clo C) (chi C))
         [0..<n_images])
      (2 * N_primitives - 1) (croot C) out = Finished out1" ..
  then show ?thesis
    by (simp add: traverse_thread_def Let_def)
qed


lemma two_leaves_rope_ordered:
  "rope_ordered example_sentinel (\<lambda>i. i)
     (lbvh_compress_ropes exact_arith (empty_ctree 3) id two_leaves 1 3 32) (2 * 2 - 1)"
  unfolding two_leaves_compressed
  by (simp add: rope_ordered_def in_range_def forward_def is_leaf_def node_index_def
      example_sentinel_def numeral_3_eq_3 All_less_Suc)


lemma two_leaves_walk:
  "traverse_thread exact_arith (point_ops [cube 100]) example_sentinel
       (lbvh_compress_ropes exact_arith (empty_ctree 3) id two_leaves 1 3 32) 1 0 (2 * 2 - 1) []
     = Finished [(0, 0, 0)]"
  unfolding two_leaves_compressed
  by (simp add: traverse_thread_def point_ops_def numeral_3_eq_3 unpack_def unpack_bins_def
      is_leaf_def payload_def decompress_def exact_arith_def test_images_def in_range_def
      node_index_def example_sentinel_def cube_def le3_def)

theorem rope_traversal_terminates_witness:
  "rope_ordered example_sentinel (\<lambda>i. i)
     (lbvh_compress_ropes exact_arith (empty_ctree 3) id two_leaves 1 3 32) (2 * 2 - 1) \<and>
   (\<exists>out'. traverse_thread exact_arith (point_ops [cube 100]) example_sentinel
       (lbvh_compress_ropes exact_arith (empty_ctree 3) id two_leaves 1 3 32) 1 0 (2 * 2 - 1) []
     = Finished out')"
  using two_leaves_rope_ordered rope_traversal_terminates [OF two_leaves_rope_ordered]
  by simp

section \<open>The guards of traverse\<close>

text \<open>
  Claim C4. A call of \<open>traverse\<close> with an LBVH of no primitives (\<open>getN() == 0\<close>), or
  with \<open>query.size() == 0\<close>, or with \<open>images.size() == 0\<close>, returns without throwing
  and changes nothing: the output is as it was, nothing is launched on the stream, and
  the traverser (buffer, scalars, autotuners, replay flag) is as it was.
\<close>

theorem traverse_empty_input_is_noop:
  assumes "getN lbvh = 0 \<or> query_size E query = 0 \<or> images_size E images = 0"
  shows "traverse E out query transform lbvh images stream self = (None, out, stream, self)"
  using assms by (auto simp add: traverse_def)

theorem traverse_empty_input_is_noop_witness:
  "traverse counting_externals [7] 5 id empty_lbvh 1 [CompressLaunch] (new_LBVHTraverser 0) =
     (None, [7], [CompressLaunch], new_LBVHTraverser 0)"
  using traverse_empty_input_is_noop [of empty_lbvh counting_externals 5 1 "[7]" id
      "[CompressLaunch]" "new_LBVHTraverser 0"]
  by (simp add: empty_lbvh_def)

text \<open>
  Claim C7. The empty-input returns come before the check of the image count: a call
  with more than 32 images returns without throwing, and changes nothing, whenever the
  LBVH has no primitives or the query is empty. (An image list of more than 32 entries
  is not empty, so the third early return does not meet this case.) The witness is such
  a call: 33 images, a tree of two primitives, an empty query.
\<close>

theorem traverse_empty_input_precedes_image_limit:
  assumes "images_size E images > 32" and "getN lbvh = 0 \<or> query_size E query = 0"
  shows "traverse E out query transform lbvh images stream self = (None, out, stream, self)"
  using assms by (auto simp add: traverse_def)

theorem traverse_empty_input_precedes_image_limit_witness:
  "images_size counting_externals 33 > 32 \<and> query_size counting_externals 0 = 0 \<and>
   traverse counting_externals [] 0 id two_leaves 33 [] (new_LBVHTraverser 0) =
     (None, [], [], new_LBVHTraverser 0)"
  using traverse_empty_input_precedes_image_limit [of counting_externals 33 two_leaves 0 "[]" id
      "[]" "new_LBVHTraverser 0"]
  by (simp add: counting_externals_def)

text \<open>
  Claim C3, as amended. A call of \<open>traverse\<close> with more than 32 images, an LBVH that has
  primitives and a query that is not empty throws the \<open>std::runtime_error\<close> and leaves
  everything as it was: the output is not written, nothing is launched on the stream (so
  no compression either), and the traverser, with its buffer and its replay flag, is
  unchanged. This is the header under \<open>include/neighbor\<close>; the older header under
  \<open>src/neighbor\<close> has no early return and checks the image count first.
\<close>

theorem traverse_too_many_images_throws:
  assumes "images_size E images > 32" and "getN lbvh \<noteq> 0" and "query_size E query \<noteq> 0"
  shows "traverse E out query transform lbvh images stream self =
           (Some too_many_images, out, stream, self)"
  using assms by (simp add: traverse_def too_many_images_def)

theorem traverse_too_many_images_throws_witness:
  "traverse counting_externals [] 5 id two_leaves 33 [] (new_LBVHTraverser 0) =
     (Some too_many_images, [], [], new_LBVHTraverser 0)"
  using traverse_too_many_images_throws [of counting_externals 33 two_leaves 5 "[]" id
      "[]" "new_LBVHTraverser 0"]
  by (simp add: counting_externals_def two_leaves_def)

text \<open>
  Claim C3, as stated, fails: with 33 images and an LBVH of no primitives the call
  returns without throwing.
\<close>

theorem too_many_images_on_empty_tree_no_error:
  "images_size counting_externals 33 > 32 \<and>
   fst (traverse counting_externals [] 5 id empty_lbvh 33 [] (new_LBVHTraverser 0)) = None"
  by (simp add: traverse_def counting_externals_def empty_lbvh_def)

section \<open>The autotuners of the traverser\<close>

lemma new_Autotuner_fixed:
  "new_Autotuner 32 1024 32 5 100000 =
     \<lparr>parameters = map (\<lambda>k. 32 + k * 32) [0..<32], nsamples = 5, period = 100000,
      enabled = True, calls_since_last_sweep = 0\<rparr>"
  by (simp add: new_Autotuner_def)

text \<open>
  Claim C9. The constructor gives the traversal autotuner and the compression
  autotuner the parameter set \<open>{32, 64, \<dots>, 1024}\<close> (from 32 to 1024 in steps of 32), 5
  samples and the period 100000; after \<open>setAutotunerParams(enable, period)\<close> both
  autotuners hold that flag and that period.
\<close>

theorem autotuners_fixed_parameters:
  "parameters (m_tune_traverse (new_LBVHTraverser r)) = map (\<lambda>k. 32 + k * 32) [0..<32] \<and>
   parameters (m_tune_compress (new_LBVHTraverser r)) = map (\<lambda>k. 32 + k * 32) [0..<32] \<and>
   set (parameters (m_tune_traverse (new_LBVHTraverser r))) = {p. 32 \<le> p \<and> p \<le> 1024 \<and> 32 dvd p} \<and>
   nsamples (m_tune_traverse (new_LBVHTraverser r)) = 5 \<and>
   nsamples (m_tune_compress (new_LBVHTraverser r)) = 5 \<and>
   period (m_tune_traverse (new_LBVHTraverser r)) = 100000 \<and>
   period (m_tune_compress (new_LBVHTraverser r)) = 100000 \<and>
   enabled (m_tune_traverse (setAutotunerParams enable per self)) = enable \<and>
   period (m_tune_traverse (setAutotunerParams enable per self)) = per \<and>
   enabled (m_tune_compress (setAutotunerParams enable per self)) = enable \<and>
   period (m_tune_compress (setAutotunerParams enable per self)) = per"
proof -
  have "set (map (\<lambda>k. 32 + k * 32) [0..<32]) = {p::nat. 32 \<le> p \<and> p \<le> 1024 \<and> 32 dvd p}"
  proof (rule set_eqI)
    fix p :: nat
    show "p \<in> set (map (\<lambda>k. 32 + k * 32) [0..<32]) \<longleftrightarrow> p \<in> {p. 32 \<le> p \<and> p \<le> 1024 \<and> 32 dvd p}"
    proof
      assume "p \<in> set (map (\<lambda>k. 32 + k * 32) [0..<32])"
      then obtain k where "k < 32" "p = 32 + k * 32" by auto
      then show "p \<in> {p. 32 \<le> p \<and> p \<le> 1024 \<and> 32 dvd p}" by simp
    next
      assume "p \<in> {p. 32 \<le> p \<and> p \<le> 1024 \<and> 32 dvd p}"
      then obtain m where m: "p = 32 * m" and b: "32 \<le> p" "p \<le> 1024"
        by (auto simp: dvd_def)
      then have "1 \<le> m" "m \<le> 32" by simp_all
      then have "m - 1 < 32" "p = 32 + (m - 1) * 32"
        using m by (simp_all add: algebra_simps)
      then show "p \<in> set (map (\<lambda>k. 32 + k * 32) [0..<32])"
        by (auto simp: image_iff intro!: bexI [of _ "m - 1"])
    qed
  qed
  then show ?thesis
    by (simp add: new_LBVHTraverser_def new_Autotuner_fixed setAutotunerParams_def
        setEnabled_def setPeriod_def)
qed

section \<open>The size of the compressed buffer\<close>

lemma length_lbvh_compress_ropes:
  "length (cdata (lbvh_compress_ropes A ctree transform tree N_internal N_nodes block_size)) =
     length (cdata ctree)"
  by (simp add: lbvh_compress_ropes_def Let_def length_fold_update)

lemma length_compress:
  "length (m_data (snd (compress E lbvh transform stream self))) =
     (if getNNodes lbvh > length (m_data self) then getNNodes lbvh else length (m_data self))"
  by (simp add: compress_def Let_def length_lbvh_compress_ropes data_def)

lemma length_setup:
  "length (m_data self) \<le> length (m_data (snd (setup_traverser E transform lbvh stream self)))"
proof (cases "getN lbvh = 0")
  case True
  then show ?thesis by (simp add: setup_traverser_def)
next
  case False
  obtain s' t' where c: "compress E lbvh transform stream self = (s', t')"
    by (cases "compress E lbvh transform stream self")
  have "length (m_data t') =
      (if getNNodes lbvh > length (m_data self) then getNNodes lbvh else length (m_data self))"
    using length_compress [of E lbvh transform stream self] by (simp add: c)
  then show ?thesis
    using False by (simp add: setup_traverser_def c)
qed

lemma length_traverse:
  "length (m_data self) \<le>
     length (m_data (snd (snd (snd (traverse E out query transform lbvh images stream self)))))"
proof -
  obtain s' t' where c: "setup_traverser E transform lbvh stream self = (s', t')"
    by (cases "setup_traverser E transform lbvh stream self")
  have "length (m_data self) \<le> length (m_data t')"
    using length_setup [of self E transform lbvh stream] by (simp add: c)
  then show ?thesis
    by (simp add: traverse_def c Let_def)
qed

lemma length_do_call:
  "length (m_data (snd (snd h))) \<le> length (m_data (snd (snd (snd (do_call E c h)))))"
proof (cases h)
  case (fields out stream self)
  show ?thesis
  proof (cases c)
    case (Setup transform lbvh)
    then show ?thesis
      using length_setup [of self E transform lbvh stream]
      by (simp add: fields split: prod.splits)
  next
    case Reset
    then show ?thesis by (simp add: fields reset_def)
  next
    case (Traverse query transform lbvh images)
    then show ?thesis
      using length_traverse [of self E out query transform lbvh images stream]
      by (simp add: fields)
  qed
qed

lemma length_run:
  "length (m_data (snd (snd h))) \<le> length (m_data (snd (snd (snd (run E cs h)))))"
proof (induction cs arbitrary: h)
  case Nil
  then show ?case by simp
next
  case (Cons c cs)
  obtain e h' where d: "do_call E c h = (e, h')"
    by (cases "do_call E c h")
  obtain es h'' where r: "run E cs h' = (es, h'')"
    by (cases "run E cs h'")
  have "length (m_data (snd (snd h))) \<le> length (m_data (snd (snd h')))"
    using length_do_call [of h E c] by (simp add: d)
  also have "\<dots> \<le> length (m_data (snd (snd h'')))"
    using Cons.IH [of h'] by (simp add: r)
  finally show ?case
    by (simp add: d r)
qed

text \<open>
  Claim C8. After \<open>compress\<close> the buffer has exactly \<open>N_nodes\<close> elements if \<open>N_nodes\<close>
  exceeded its size, and its old size otherwise; and over any sequence of \<open>setup\<close>,
  \<open>traverse\<close> and \<open>reset\<close> calls, on any trees, the size of the buffer never goes
  below what it was.
\<close>

theorem buffer_resized_only_on_growth:
  "length (m_data (snd (compress E lbvh transform stream self))) =
     (if getNNodes lbvh > length (m_data self) then getNNodes lbvh else length (m_data self)) \<and>
   length (m_data self) \<le>
     length (m_data (snd (snd (snd (run E cs (out, stream, self))))))"
  using length_compress [of E lbvh transform stream self]
    length_run [of "(out, stream, self)" E cs]
  by simp

section \<open>Replay\<close>

lemma setup_sets_replay:
  "getN lbvh \<noteq> 0 \<Longrightarrow> m_replay (snd (setup_traverser E transform lbvh stream self))"
  by (simp add: setup_traverser_def split: prod.splits)



lemma traverse_after_setup:
  assumes n: "getN lbvh \<noteq> 0" and r: "\<not> m_replay self"
    and s: "setup_traverser E transform lbvh stream self = (stream1, self1)"
  shows "traverse E out query transform lbvh images stream1 self1 =
     (if query_size E query = 0 \<or> images_size E images = 0 then (None, out, stream1, self1)
      else if images_size E images > 32 then (Some too_many_images, out, stream1, self1)
      else traverse E out query transform lbvh images stream self)"
proof -
  have "m_replay self1"
    using setup_sets_replay [OF n, of E transform stream self] by (simp add: s)
  then show ?thesis
    using n r by (simp add: traverse_def s too_many_images_def)
qed

lemma traverse_before_setup:
  assumes "query_size E query = 0 \<or> images_size E images = 0 \<or> images_size E images > 32"
  shows "traverse E out query transform lbvh images stream self =
     (if getN lbvh = 0 \<or> query_size E query = 0 \<or> images_size E images = 0 then None
      else Some too_many_images, out, stream, self)"
  using assms by (auto simp add: traverse_def too_many_images_def)

lemma outputs_run_Cons:
  "outputs (run E (c # cs) h) =
     (fst (do_call E c h) # fst (outputs (run E cs (snd (do_call E c h)))),
      snd (outputs (run E cs (snd (do_call E c h)))))"
  by (simp add: outputs_def split: prod.splits)

lemma run_traverse_calls_sim:
  assumes n: "getN lbvh \<noteq> 0"
  shows "\<not> m_replay self \<Longrightarrow>
     setup_traverser E transform lbvh stream self = (stream1, self1) \<Longrightarrow>
     outputs (run E (traverse_calls transform lbvh qs) (out, stream1, self1)) =
       outputs (run E (traverse_calls transform lbvh qs) (out, stream, self))"
proof (induction qs arbitrary: out)
  case Nil
  then show ?case by (simp add: traverse_calls_def outputs_def)
next
  case (Cons c qs)
  obtain query images where c: "c = (query, images)"
    by (cases c)
  have calls: "traverse_calls transform lbvh (c # qs) =
      Traverse query transform lbvh images # traverse_calls transform lbvh qs"
    by (simp add: traverse_calls_def c)
  note after = traverse_after_setup [OF n Cons.prems(1) Cons.prems(2), of out query images]
  show ?case
  proof (cases "query_size E query = 0 \<or> images_size E images = 0 \<or> images_size E images > 32")
    case True
    have a: "traverse E out query transform lbvh images stream1 self1 =
        (if getN lbvh = 0 \<or> query_size E query = 0 \<or> images_size E images = 0 then None
         else Some too_many_images, out, stream1, self1)"
      using True by (rule traverse_before_setup)
    have b: "traverse E out query transform lbvh images stream self =
        (if getN lbvh = 0 \<or> query_size E query = 0 \<or> images_size E images = 0 then None
         else Some too_many_images, out, stream, self)"
      using True by (rule traverse_before_setup)
    from Cons.IH [OF Cons.prems, of out] show ?thesis
      by (simp add: calls a b outputs_run_Cons del: run.simps)
  next
    case False
    then have "traverse E out query transform lbvh images stream1 self1 =
        traverse E out query transform lbvh images stream self"
      using after by auto
    then show ?thesis
      by (simp add: calls outputs_run_Cons del: run.simps)
  qed
qed

lemma compress_writes:
  "compress E lbvh transform stream self =
     (let K = lbvh_compress_ropes (arith E)
                \<lparr>croot = getRoot lbvh,
                 cdata = (if getNNodes lbvh > length (m_data self)
                          then replicate (getNNodes lbvh) zero_int4 else m_data self),
                 clo = m_lbvh_lo self, chi = m_lbvh_hi self, cbins = m_bins self\<rparr>
                transform lbvh (getNInternal lbvh) (getNNodes lbvh)
                (tune_getParam E (tune_begin E (m_tune_compress self)))
      in (stream @ [CompressLaunch],
          self\<lparr>m_root := getRoot lbvh, m_data := cdata K, m_lbvh_lo := clo K,
               m_lbvh_hi := chi K, m_bins := cbins K,
               m_tune_compress := tune_end E (tune_begin E (m_tune_compress self))\<rparr>))"
  by (simp add: compress_def Let_def data_def)

lemma traverse_past_guards:
  assumes "getN lbvh \<noteq> 0" and "query_size E query \<noteq> 0"
    and "images_size E images \<noteq> 0" and "images_size E images \<le> 32"
  shows "traverse E out query transform lbvh images stream self =
     (case (if m_replay self then (stream, self)
            else setup_traverser E transform lbvh stream self) of
        (stream1, self1) \<Rightarrow>
          (None,
           lbvh_traverse_ropes E out
             \<lparr>croot = m_root self1, cdata = m_data self1, clo = m_lbvh_lo self1,
              chi = m_lbvh_hi self1, cbins = m_bins self1\<rparr>
             query images (tune_getParam E (tune_begin E (m_tune_traverse self1))),
           stream1 @ [TraverseLaunch],
           self1\<lparr>m_tune_traverse := tune_end E (tune_begin E (m_tune_traverse self1))\<rparr>))"
  using assms by (simp add: traverse_def Let_def data_def split: prod.splits)

lemma example_sizes:
  "getN two_leaves = 2" "getN single_leaf = 1" "getN empty_lbvh = 0"
  "getNNodes two_leaves = 3" "getNNodes single_leaf = 1"
  "query_size counting_externals q = q" "images_size counting_externals i = i"
  "m_replay (new_LBVHTraverser r) = False" "m_data (new_LBVHTraverser r) = []"
  "lbvh_traverse_ropes counting_externals out clbvh q i b = out @ [length (cdata clbvh)]"
  by (simp_all add: two_leaves_def single_leaf_def empty_lbvh_def counting_externals_def
      new_LBVHTraverser_def)

lemma m_data_setup_two_leaves:
  "length (m_data (snd (setup_traverser E transform two_leaves stream (new_LBVHTraverser r)))) = 3"
proof -
  obtain s' t' where c: "compress E two_leaves transform stream (new_LBVHTraverser r) = (s', t')"
    by (cases "compress E two_leaves transform stream (new_LBVHTraverser r)")
  have "length (m_data t') = 3"
    using length_compress [of E two_leaves transform stream "new_LBVHTraverser r"]
    by (simp add: c example_sizes)
  then show ?thesis
    by (simp add: setup_traverser_def c example_sizes)
qed

text \<open>
  Claim C5, as amended. With an LBVH that has primitives, a traverser whose replay flag
  is not set, and one transform given to \<open>setup\<close> and to every \<open>traverse\<close> call: any list
  of \<open>traverse\<close> calls on that LBVH (whatever their queries and images, early returns
  and throws included) gives the same outputs, and throws at the same calls, after a
  \<open>setup\<close> as without it. \<open>setup\<close> on such an LBVH launches the compression, stores what
  the kernel wrote (the buffer, resized only on growth, the root and the scalars) and
  sets the replay flag. A \<open>traverse\<close> call that gets past its guards calls \<open>setup\<close>
  exactly when the replay flag is not set; with the flag set it launches only the
  traversal, which reads the buffer, root and scalars the traverser already holds, and
  leaves them as they are.
\<close>

theorem replay_same_outputs:
  assumes "getN lbvh \<noteq> 0" and "\<not> m_replay self"
  shows "outputs (run E (traverse_calls transform lbvh qs)
                    (out, setup_traverser E transform lbvh stream self)) =
           outputs (run E (traverse_calls transform lbvh qs) (out, stream, self)) \<and>
         setup_traverser E transform lbvh stream self =
           (let K = lbvh_compress_ropes (arith E)
                      \<lparr>croot = getRoot lbvh,
                       cdata = (if getNNodes lbvh > length (m_data self)
                                then replicate (getNNodes lbvh) zero_int4 else m_data self),
                       clo = m_lbvh_lo self, chi = m_lbvh_hi self, cbins = m_bins self\<rparr>
                      transform lbvh (getNInternal lbvh) (getNNodes lbvh)
                      (tune_getParam E (tune_begin E (m_tune_compress self)))
            in (stream @ [CompressLaunch],
                self\<lparr>m_root := getRoot lbvh, m_data := cdata K, m_lbvh_lo := clo K,
                     m_lbvh_hi := chi K, m_bins := cbins K,
                     m_tune_compress := tune_end E (tune_begin E (m_tune_compress self)),
                     m_replay := True\<rparr>)) \<and>
         (query_size E query \<noteq> 0 \<and> images_size E images \<noteq> 0 \<and> images_size E images \<le> 32 \<longrightarrow>
            traverse E out' query transform lbvh images stream' self' =
              (case (if m_replay self' then (stream', self')
                     else setup_traverser E transform lbvh stream' self') of
                 (stream1, self1) \<Rightarrow>
                   (None,
                    lbvh_traverse_ropes E out'
                      \<lparr>croot = m_root self1, cdata = m_data self1, clo = m_lbvh_lo self1,
                       chi = m_lbvh_hi self1, cbins = m_bins self1\<rparr>
                      query images (tune_getParam E (tune_begin E (m_tune_traverse self1))),
                    stream1 @ [TraverseLaunch],
                    self1\<lparr>m_tune_traverse :=
                            tune_end E (tune_begin E (m_tune_traverse self1))\<rparr>)))"
proof -
  obtain stream1 self1 where s: "setup_traverser E transform lbvh stream self = (stream1, self1)"
    by (cases "setup_traverser E transform lbvh stream self")
  have a: "outputs (run E (traverse_calls transform lbvh qs)
                      (out, setup_traverser E transform lbvh stream self)) =
      outputs (run E (traverse_calls transform lbvh qs) (out, stream, self))"
    using run_traverse_calls_sim [OF assms(1) assms(2) s] by (simp add: s)
  have b: "setup_traverser E transform lbvh stream self =
      (let K = lbvh_compress_ropes (arith E)
                 \<lparr>croot = getRoot lbvh,
                  cdata = (if getNNodes lbvh > length (m_data self)
                           then replicate (getNNodes lbvh) zero_int4 else m_data self),
                  clo = m_lbvh_lo self, chi = m_lbvh_hi self, cbins = m_bins self\<rparr>
                 transform lbvh (getNInternal lbvh) (getNNodes lbvh)
                 (tune_getParam E (tune_begin E (m_tune_compress self)))
       in (stream @ [CompressLaunch],
           self\<lparr>m_root := getRoot lbvh, m_data := cdata K, m_lbvh_lo := clo K,
                m_lbvh_hi := chi K, m_bins := cbins K,
                m_tune_compress := tune_end E (tune_begin E (m_tune_compress self)),
                m_replay := True\<rparr>))"
    using assms(1) by (simp add: setup_traverser_def compress_writes Let_def)
  show ?thesis
    using a b traverse_past_guards [OF assms(1), of E query images out' transform stream' self']
    by blast
qed

text \<open>
  In the witness four calls follow: one that traverses, one with an empty query, one
  with 33 images, one that traverses again. Both traversals read a buffer of three
  nodes, and the first call of the run without \<open>setup\<close> launches the compression itself.
\<close>

lemma replay_example_outputs:
  "outputs (run counting_externals (traverse_calls id two_leaves [(5, 1), (0, 3), (4, 33), (2, 27)])
              ([], [], new_LBVHTraverser 0)) =
     ([None, None, Some too_many_images, None], [3, 3])"
proof -
  obtain stream1 self1 where
    a: "setup_traverser counting_externals id two_leaves [] (new_LBVHTraverser 0) = (stream1, self1)"
    by (cases "setup_traverser counting_externals id two_leaves [] (new_LBVHTraverser 0)")
  have len: "length (m_data self1) = 3"
    using m_data_setup_two_leaves [of counting_externals id "[]" 0] by (simp add: a)
  have rep: "m_replay self1"
    using setup_sets_replay [of two_leaves counting_externals id "[]" "new_LBVHTraverser 0"]
    by (simp add: a example_sizes)
  show ?thesis
    by (simp add: traverse_calls_def traverse_def a example_sizes data_def Let_def len rep
        outputs_def too_many_images_def)
qed

theorem replay_same_outputs_witness:
  "getN two_leaves \<noteq> 0 \<and> \<not> m_replay (new_LBVHTraverser 0) \<and>
   outputs (run counting_externals (traverse_calls id two_leaves [(5, 1), (0, 3), (4, 33), (2, 27)])
              ([], setup_traverser counting_externals id two_leaves [] (new_LBVHTraverser 0))) =
     ([None, None, Some too_many_images, None], [3, 3]) \<and>
   fst (snd (snd (traverse counting_externals [] 5 id two_leaves 1 [] (new_LBVHTraverser 0)))) =
     [CompressLaunch, TraverseLaunch]"
proof -
  have h1: "getN two_leaves \<noteq> 0"
    by (simp add: example_sizes)
  have h2: "\<not> m_replay (new_LBVHTraverser 0)"
    by (simp add: example_sizes)
  have g: "query_size counting_externals 5 \<noteq> 0 \<and> images_size counting_externals 1 \<noteq> 0 \<and>
      images_size counting_externals 1 \<le> 32"
    by (simp add: example_sizes)
  note t = replay_same_outputs [OF h1 h2, where E = counting_externals and transform = id
      and qs = "[(5, 1), (0, 3), (4, 33), (2, 27)]" and out = "[]" and stream = "[]"
      and query = 5 and images = 1 and out' = "[]" and stream' = "[]"
      and self' = "new_LBVHTraverser 0"]
  have a: "outputs (run counting_externals
        (traverse_calls id two_leaves [(5, 1), (0, 3), (4, 33), (2, 27)])
        ([], setup_traverser counting_externals id two_leaves [] (new_LBVHTraverser 0))) =
      ([None, None, Some too_many_images, None], [3, 3])"
    using t [THEN conjunct1] by (simp only: replay_example_outputs)
  have "traverse counting_externals [] 5 id two_leaves 1 [] (new_LBVHTraverser 0) =
      (case (if m_replay (new_LBVHTraverser 0) then ([], new_LBVHTraverser 0)
             else setup_traverser counting_externals id two_leaves [] (new_LBVHTraverser 0)) of
         (stream1, self1) \<Rightarrow>
           (None,
            lbvh_traverse_ropes counting_externals []
              \<lparr>croot = m_root self1, cdata = m_data self1, clo = m_lbvh_lo self1,
               chi = m_lbvh_hi self1, cbins = m_bins self1\<rparr>
              5 1 (tune_getParam counting_externals
                     (tune_begin counting_externals (m_tune_traverse self1))),
            stream1 @ [TraverseLaunch],
            self1\<lparr>m_tune_traverse := tune_end counting_externals
                    (tune_begin counting_externals (m_tune_traverse self1))\<rparr>))"
    using t [THEN conjunct2, THEN conjunct2] g by (rule mp)
  then have "fst (snd (snd (traverse counting_externals [] 5 id two_leaves 1 []
      (new_LBVHTraverser 0)))) = [CompressLaunch, TraverseLaunch]"
    using t [THEN conjunct2, THEN conjunct1] by (simp add: example_sizes Let_def)
  with h1 h2 a show ?thesis
    by simp
qed

text \<open>
  Claim C5, as stated, fails when \<open>setup\<close> is given another transform than the
  \<open>traverse\<close> call that follows: on the tree of one primitive 0, after \<open>setup\<close> with the
  identity a \<open>traverse\<close> with \<open>next_primitive\<close> reads the leaf cached as \<open>~0\<close>, and without
  \<open>setup\<close> it compresses for itself and reads \<open>~1\<close>.
\<close>

theorem replay_differs_with_other_transform:
  "outputs (run dumping_externals [Traverse 1 next_primitive single_leaf 1]
              ([], setup_traverser dumping_externals id single_leaf [] (new_LBVHTraverser 0))) =
     ([None], [NOT 0]) \<and>
   outputs (run dumping_externals [Traverse 1 next_primitive single_leaf 1]
              ([], [], new_LBVHTraverser 0)) =
     ([None], [NOT 1]) \<and>
   outputs (run dumping_externals [Traverse 1 next_primitive single_leaf 1]
              ([], setup_traverser dumping_externals id single_leaf [] (new_LBVHTraverser 0))) \<noteq>
   outputs (run dumping_externals [Traverse 1 next_primitive single_leaf 1]
              ([], [], new_LBVHTraverser 0))"
proof -
  have a: "outputs (run dumping_externals [Traverse 1 next_primitive single_leaf 1]
      ([], setup_traverser dumping_externals id single_leaf [] (new_LBVHTraverser 0))) =
      ([None], [NOT 0])"
    by (simp add: outputs_def traverse_def setup_traverser_def compress_def data_def Let_def
        lbvh_compress_ropes_def compress_node_def pack_def dumping_externals_def
        single_leaf_def new_LBVHTraverser_def)
  have b: "outputs (run dumping_externals [Traverse 1 next_primitive single_leaf 1]
      ([], [], new_LBVHTraverser 0)) = ([None], [NOT 1])"
    by (simp add: outputs_def traverse_def setup_traverser_def compress_def data_def Let_def
        lbvh_compress_ropes_def compress_node_def pack_def dumping_externals_def
        single_leaf_def new_LBVHTraverser_def next_primitive_def)
  show ?thesis
    unfolding a b by simp
qed



end
